theory Spec2Isabelle
  imports
    Main
    "HOL-Library.Sublist"
    "HOL-Library.Char_ord"
    "HOL-Library.List_Lexorder"
    "HOL-Library.Product_Lexorder"
begin

section \<open>The fusion search of edith3.py\<close>

text \<open>
  The program reads cases of gene pairs, fuses them breadth first and prints, for each
  case, the shortest string on which both sides of a chain of pairs agree.
  Python strings are modelled as \<^typ>\<open>string\<close>, compared character by character as
  Python compares code points; the model covers the strings of code points below 256.
  A chromosome is the tuple \<open>(sequence, [left_a, left_b])\<close> that \<open>get_fitness\<close>
  returns.
\<close>

type_synonym gene = "string \<times> string"
type_synonym chromosome = "string \<times> (string \<times> string)"

definition UNFIT :: string where
  "UNFIT = ''_unfit''"

definition IMPOSSIBLE :: string where
  "IMPOSSIBLE = ''IMPOSSIBLE''"

text \<open>\<open>a.startswith(b)\<close>.\<close>

definition startswith :: "string \<Rightarrow> string \<Rightarrow> bool" where
  "startswith a b = prefix b a"

text \<open>
  \<open>get_fitness(sequence, dominance, new_genes)\<close>, lines 21 to 30. The slice
  \<open>a[len(b):]\<close> is \<open>drop (length b) a\<close>. The marker of an unfit chromosome is the
  string \<open>"_unfit"\<close> in the first component, as in the source.
\<close>

definition get_fitness :: "string \<Rightarrow> string \<times> string \<Rightarrow> gene \<Rightarrow> chromosome" where
  "get_fitness sequence dominance new_genes =
     (let a = fst dominance @ fst new_genes;
          b = snd dominance @ snd new_genes
      in if length a > 10 * length sequence then (UNFIT, ('''', ''''))
         else if startswith a b then (sequence @ b, (drop (length b) a, ''''))
         else if startswith b a then (sequence @ a, ('''', drop (length a) b))
         else (UNFIT, ('''', '''')))"

text \<open>
  The state of one case: the working list \<open>chromosomes\<close>, the list \<open>survivors\<close>, and
  the number of passes of the loop \<open>for age in range(ages)\<close> made so far.
\<close>

record population =
  chromosomes :: "chromosome list"
  survivors :: "string list"
  age :: nat

text \<open>
  The comprehension of lines 61 to 67 and 87 to 93: the sequences of the chromosomes that
  are not unfit and whose two leftovers are empty.
\<close>

definition catch_survivors :: "chromosome list \<Rightarrow> string list" where
  "catch_survivors cs =
     map fst (filter (\<lambda>c. fst c \<noteq> UNFIT \<and> fst (snd c) = '''' \<and> snd (snd c) = '''') cs)"

text \<open>
  Lines 53 to 67: every gene is fused with the empty chromosome. The list is not
  filtered: an unfit result stays in \<open>chromosomes\<close>.
\<close>

definition origins :: "gene list \<Rightarrow> population" where
  "origins genes =
     (let cs = map (get_fitness '''' ('''', '''')) genes
      in \<lparr>chromosomes = cs, survivors = catch_survivors cs, age = 0\<rparr>)"

text \<open>
  The test of lines 78 and 79. \<open>sorted(survivors, key=len)[0]\<close> is read only when
  \<open>survivors\<close> is not empty.
\<close>

definition expandable :: "string list \<Rightarrow> chromosome \<Rightarrow> bool" where
  "expandable svs c =
     (if svs = [] then True
      else length (fst c) < length (hd (sort_key length svs)))"

text \<open>The inner generator of lines 74 to 80: the pairs \<open>(c, g)\<close> that are fused.\<close>

definition mutations :: "string list \<Rightarrow> chromosome list \<Rightarrow> gene list \<Rightarrow> (chromosome \<times> gene) list" where
  "mutations svs cs genes =
     concat (map (\<lambda>c. concat (map (\<lambda>g. if expandable svs c then [(c, g)] else []) genes)) cs)"

text \<open>Lines 72 to 86: the next working list, unfit results removed.\<close>

definition next_chromosomes :: "string list \<Rightarrow> chromosome list \<Rightarrow> gene list \<Rightarrow> chromosome list" where
  "next_chromosomes svs cs genes =
     filter (\<lambda>c. fst c \<noteq> UNFIT)
       (map (\<lambda>m. get_fitness (fst (fst m)) (snd (fst m)) (snd m)) (mutations svs cs genes))"

text \<open>
  One pass of the loop body, lines 72 to 93. The generator is consumed by the list
  comprehension of line 82 before \<open>survivors\<close> is extended, so the test of line 78 sees
  the survivors of the earlier rounds.
\<close>

definition mutate :: "gene list \<Rightarrow> population \<Rightarrow> population" where
  "mutate genes p =
     (let cs = next_chromosomes (survivors p) (chromosomes p) genes
      in \<lparr>chromosomes = cs, survivors = survivors p @ catch_survivors cs, age = Suc (age p)\<rparr>)"

text \<open>The loop \<open>for age in range(ages)\<close> after the seeding.\<close>

primrec run :: "gene list \<Rightarrow> nat \<Rightarrow> population" where
  "run genes 0 = origins genes"
| "run genes (Suc n) = mutate genes (run genes n)"

text \<open>Lines 96 and 97: the survivors sorted by \<open>(len(s), s)\<close>, the first one kept.\<close>

definition final_survivor :: "string list \<Rightarrow> string" where
  "final_survivor svs =
     (case sort_key (\<lambda>s. (length s, s)) svs of [] \<Rightarrow> IMPOSSIBLE | s # _ \<Rightarrow> s)"

definition solve :: "gene list \<Rightarrow> nat \<Rightarrow> string" where
  "solve genes ages = final_survivor (survivors (run genes ages))"

subsection \<open>Reading the cases\<close>

text \<open>
  Lines 40 to 52 and 100 to 101. Standard input is the list of its lines, each with its
  terminating newline when it has one. An uncaught Python exception ends the whole run;
  it is a value of \<open>error\<close>.
\<close>

datatype error = ValueError | StopIteration | IndexError | RuntimeError

definition newline :: char where
  "newline = CHR 0x0A"

text \<open>The white space of \<open>str.split()\<close>, for code points below 256.\<close>

definition isspace :: "char \<Rightarrow> bool" where
  "isspace c = (of_char c \<in> set [9, 10, 11, 12, 13, 28, 29, 30, 31, 32, 133, 160 :: nat])"

text \<open>
  \<open>line.split()\<close>: the maximal runs of characters that are not white space. The first
  argument of \<open>split_from\<close> is the token being read.
\<close>

fun split_from :: "string \<Rightarrow> string \<Rightarrow> string list" where
  "split_from w [] = (if w = [] then [] else [w])"
| "split_from w (c # cs) =
     (if isspace c then (if w = [] then split_from [] cs else w # split_from [] cs)
      else split_from (w @ [c]) cs)"

definition str_split :: "string \<Rightarrow> string list" where
  "str_split s = split_from [] s"

text \<open>\<open>s.split(sep)\<close> for a separator of one character, and \<open>sep.join(xs)\<close>.\<close>

fun split_on :: "char \<Rightarrow> string \<Rightarrow> string list" where
  "split_on sep [] = [[]]"
| "split_on sep (c # cs) =
     (if c = sep then [] # split_on sep cs
      else (case split_on sep cs of w # ws \<Rightarrow> (c # w) # ws | [] \<Rightarrow> [[c]]))"

fun join :: "char \<Rightarrow> string list \<Rightarrow> string" where
  "join sep [] = []"
| "join sep [x] = x"
| "join sep (x # y # ys) = x @ sep # join sep (y # ys)"

text \<open>\<open>s.replace("\n", "")\<close>.\<close>

definition replace_newline :: "string \<Rightarrow> string" where
  "replace_newline s = filter (\<lambda>c. c \<noteq> newline) s"

text \<open>
  \<open>int(line)\<close> as CPython reads a string of code points below 256. The string is first
  made ASCII: a code point from 127 on becomes a space when it is Unicode white space
  (U+0085 and U+00A0) and an invalid character otherwise. The white space that \<open>int\<close>
  then strips at both ends is the space and U+0009 to U+000D only, so U+001C to U+001F,
  which \<open>split()\<close> skips, make \<open>int\<close> fail. After an optional sign come decimal digits,
  with single underscores allowed between two digits. A numeral of more than 4300 digits
  is refused, as CPython 3.11 and later do by default. \<open>None\<close> is the \<open>ValueError\<close>.
\<close>

definition int_space :: "char \<Rightarrow> bool" where
  "int_space c = (of_char c \<in> set [9, 10, 11, 12, 13, 32, 133, 160 :: nat])"

definition int_strip :: "string \<Rightarrow> string" where
  "int_strip s = rev (dropWhile int_space (rev (dropWhile int_space s)))"

definition isdigit :: "char \<Rightarrow> bool" where
  "isdigit c = (48 \<le> (of_char c :: nat) \<and> (of_char c :: nat) \<le> 57)"

text \<open>
  The digits of a numeral without its underscores; the flag tells that the character
  before was a digit. An underscore must follow a digit and be followed by one.
\<close>

fun numeral_digits :: "bool \<Rightarrow> string \<Rightarrow> string option" where
  "numeral_digits prev [] = (if prev then Some [] else None)"
| "numeral_digits prev (c # cs) =
     (if isdigit c then map_option ((#) c) (numeral_digits True cs)
      else if c = CHR ''_'' \<and> prev then numeral_digits False cs
      else None)"

definition digits_value :: "string \<Rightarrow> nat" where
  "digits_value ds = foldl (\<lambda>acc c. 10 * acc + (of_char c - 48)) 0 ds"

definition py_int :: "string \<Rightarrow> int option" where
  "py_int line =
     (case int_strip line of
        [] \<Rightarrow> None
      | c # cs \<Rightarrow>
          (case numeral_digits False (if c = CHR ''-'' \<or> c = CHR ''+'' then cs else c # cs) of
             None \<Rightarrow> None
           | Some ds \<Rightarrow>
               if 4300 < length ds then None
               else if c = CHR ''-'' then Some (- int (digits_value ds))
               else Some (int (digits_value ds))))"

text \<open>
  \<open>get_fitness\<close> reads \<open>new_genes[0]\<close> and \<open>new_genes[1]\<close> before anything else, and
  line 54 calls it on every gene in turn: a gene of fewer than two tokens raises
  \<open>IndexError\<close> there, and further tokens are never read.
\<close>

definition gene_of :: "string list \<Rightarrow> error + gene" where
  "gene_of new_genes =
     (case new_genes of g0 # g1 # _ \<Rightarrow> Inr (g0, g1) | _ \<Rightarrow> Inl IndexError)"

fun genes_of :: "string list list \<Rightarrow> error + gene list" where
  "genes_of [] = Inr []"
| "genes_of (ts # tss) =
     (case gene_of ts of
        Inl e \<Rightarrow> Inl e
      | Inr g \<Rightarrow> (case genes_of tss of Inl e \<Rightarrow> Inl e | Inr gs \<Rightarrow> Inr (g # gs)))"

text \<open>Lines 42 to 52: the token lists of the \<open>n\<close> lines that follow the header.\<close>

definition case_tokens :: "nat \<Rightarrow> string list \<Rightarrow> string list list" where
  "case_tokens n rest =
     map str_split (split_on newline (join newline (map replace_newline (take n rest))))"

text \<open>
  The loop over standard input. \<open>next(sys.stdin)\<close> raises \<open>StopIteration\<close> when no
  line is left; \<open>range\<close> of a number below one is empty. The result is the list of
  printed answers, each with its case number, and the exception that ended the run, if
  any. The number of ages is the constant 8 of line 36.
\<close>

fun main_loop :: "nat \<Rightarrow> string list \<Rightarrow> (nat \<times> string) list \<times> error option" where
  "main_loop case_number [] = ([], None)"
| "main_loop case_number (line # rest) =
     (case py_int line of
        None \<Rightarrow> ([], Some ValueError)
      | Some case_length \<Rightarrow>
          if length rest < nat case_length then ([], Some StopIteration)
          else (case genes_of (case_tokens (nat case_length) rest) of
                  Inl e \<Rightarrow> ([], Some e)
                | Inr genes \<Rightarrow>
                    (let r = main_loop (Suc case_number) (drop (nat case_length) rest)
                     in ((case_number + 1, solve genes 8) # fst r, snd r))))"

section \<open>The population of edith.py\<close>

text \<open>
  The older variant keeps, for every chromosome, the whole concatenations \<open>A\<close> and \<open>B\<close>
  in a data frame and derives the leftovers from them. A frame is modelled as the list of
  its rows, and an operation on a column as the operation on every row: a boolean mask
  is \<open>filter\<close>, \<open>apply(..., axis=1)\<close> is \<open>map\<close>, \<open>concat\<close> is \<open>@\<close>.

  The frame of genes is a list of pairs of strings: the model covers the cases in which
  \<open>pandas.read_csv\<close> returns two columns of strings. A token that pandas reads as a number
  or as a missing value is not a string of the frame; on a column of such values line 171
  raises \<open>AttributeError\<close>, and no definition below says anything about such a case.
\<close>

definition FIT :: string where
  "FIT = ''_fit''"

record row =
  col_A :: string
  col_B :: string
  A_DOMINANCE :: string
  B_DOMINANCE :: string

record Population =
  pop_chromosomes :: "row list"
  pop_survivors :: "row list"

text \<open>
  \<open>Genes.__init__\<close>, lines 74 to 93. \<open>pandas.read_csv\<close> is not code of the repository and
  is a parameter: the function from the text of a case to the frame of strings read from
  it.
\<close>

definition Genes_init :: "(string \<Rightarrow> gene list) \<Rightarrow> string \<Rightarrow> error + gene list" where
  "Genes_init read_csv genes =
     (if genes = [] then Inl ValueError else Inr (read_csv genes))"

text \<open>\<open>Population.get_fitness(row)\<close>, lines 251 to 276, with \<open>a = row.iloc[0]\<close> and
  \<open>b = row.iloc[1]\<close>.\<close>

definition Population_get_fitness :: "string \<Rightarrow> string \<Rightarrow> string" where
  "Population_get_fitness a b =
     (if a = b then FIT
      else if startswith a b then drop (length b) a
      else UNFIT)"

text \<open>
  \<open>__calculate_dominance\<close>, lines 232 to 249. On a frame without rows \<open>apply\<close> returns
  a frame instead of a column, and the assignment of line 245 raises \<open>ValueError\<close>.
\<close>

definition calculate_dominance :: "gene list \<Rightarrow> error + row list" where
  "calculate_dominance cs =
     (if cs = [] then Inl ValueError
      else Inr (map (\<lambda>c. \<lparr>col_A = fst c, col_B = snd c,
                         A_DOMINANCE = Population_get_fitness (fst c) (snd c),
                         B_DOMINANCE = Population_get_fitness (snd c) (fst c)\<rparr>) cs))"

text \<open>\<open>__remove_unfit\<close>, lines 278 to 293.\<close>

definition remove_unfit :: "row list \<Rightarrow> row list" where
  "remove_unfit rs = filter (\<lambda>r. \<not> (A_DOMINANCE r = UNFIT \<and> B_DOMINANCE r = UNFIT)) rs"

text \<open>\<open>__remove_fit\<close>, lines 295 to 313; \<open>is_fit\<close> is its \<open>condition\<close>.\<close>

definition is_fit :: "row \<Rightarrow> bool" where
  "is_fit r = (A_DOMINANCE r = FIT \<or> B_DOMINANCE r = FIT)"

definition remove_fit :: "row list \<Rightarrow> row list \<Rightarrow> Population" where
  "remove_fit svs rs =
     \<lparr>pop_chromosomes = filter (\<lambda>r. \<not> is_fit r) rs,
      pop_survivors = svs @ filter is_fit rs\<rparr>"

text \<open>\<open>fit\<close>, lines 209 to 220, on the survivors so far and the columns \<open>A\<close> and \<open>B\<close>
  of the chromosomes.\<close>

definition fit :: "row list \<Rightarrow> gene list \<Rightarrow> error + Population" where
  "fit svs cs =
     (case calculate_dominance cs of
        Inl e \<Rightarrow> Inl e
      | Inr rs \<Rightarrow> Inr (remove_fit svs (remove_unfit rs)))"

text \<open>
  \<open>Population.__init__\<close>, lines 151 to 173. The condition of line 171 compares the first
  characters; \<open>.str[0]\<close> of an empty string is a missing value, which equals nothing.
  When no gene passes the condition, \<open>fit\<close> meets a frame without rows.
\<close>

definition first_match :: "gene \<Rightarrow> bool" where
  "first_match g = (fst g \<noteq> [] \<and> snd g \<noteq> [] \<and> hd (fst g) = hd (snd g))"

definition Population_init :: "gene list \<Rightarrow> error + Population" where
  "Population_init genes =
     (if genes = [] then Inl RuntimeError
      else fit [] (filter first_match genes))"

text \<open>
  \<open>mutate\<close>, lines 315 to 353: the outer merge on a key that is missing in every row
  pairs every chromosome with every gene, and the columns \<open>A\<close> and \<open>B\<close> of each pair are
  concatenated. The order of the merged rows is taken chromosome by chromosome.
\<close>

definition Population_mutate :: "gene list \<Rightarrow> row list \<Rightarrow> gene list" where
  "Population_mutate genes rs =
     concat (map (\<lambda>r. map (\<lambda>g. (col_A r @ fst g, col_B r @ snd g)) genes) rs)"

text \<open>
  The test of line 405, \<open>shortest_survivor < shortest_chromosome\<close>. The minimum of no
  length is a missing value, for which the comparison is false.
\<close>

definition solution_found :: "Population \<Rightarrow> bool" where
  "solution_found p =
     (pop_survivors p \<noteq> [] \<and> pop_chromosomes p \<noteq> [] \<and>
      min_list (map (\<lambda>r. length (col_A r)) (pop_survivors p))
        < min_list (map (\<lambda>r. length (col_A r)) (pop_chromosomes p)))"

text \<open>
  \<open>Sequence.__init__\<close> and \<open>Sequence.run\<close>, lines 367 to 409. The second component
  counts the passes of the loop \<open>for age in range(self.ages)\<close>.
\<close>

definition Sequence_init :: "gene list \<Rightarrow> nat \<Rightarrow> error + Population" where
  "Sequence_init genes ages = (if ages < 1 then Inl ValueError else Population_init genes)"

fun ages_loop :: "gene list \<Rightarrow> nat \<Rightarrow> Population \<times> nat \<Rightarrow> error + Population \<times> nat" where
  "ages_loop genes 0 (p, count) = Inr (p, count)"
| "ages_loop genes (Suc n) (p, count) =
     (case fit (pop_survivors p) (Population_mutate genes (pop_chromosomes p)) of
        Inl e \<Rightarrow> Inl e
      | Inr p' \<Rightarrow>
          if pop_chromosomes p' = [] then Inr (p', Suc count)
          else if solution_found p' then Inr (p', Suc count)
          else ages_loop genes n (p', Suc count))"

definition Sequence_run :: "gene list \<Rightarrow> nat \<Rightarrow> Population \<Rightarrow> error + Population \<times> nat" where
  "Sequence_run genes ages p =
     (if pop_chromosomes p \<noteq> [] then ages_loop genes ages (p, 0) else Inr (p, 0))"

text \<open>\<open>get_survivor(default)\<close>, lines 189 to 207.\<close>

definition get_survivor :: "string \<Rightarrow> Population \<Rightarrow> string" where
  "get_survivor dflt p =
     (case sort_key (\<lambda>r. (length (col_A r), col_A r)) (pop_survivors p) of
        [] \<Rightarrow> dflt
      | r # _ \<Rightarrow> col_A r)"

text \<open>
  Lines 439 to 444, for the frame \<open>g.genes\<close> of a case: the sequence is built with as
  many ages as the frame has rows, run, and asked for its survivor.
\<close>

definition edith_answer :: "gene list \<Rightarrow> error + string" where
  "edith_answer genes =
     (case Sequence_init genes (length genes) of
        Inl e \<Rightarrow> Inl e
      | Inr p \<Rightarrow>
          (case Sequence_run genes (length genes) p of
             Inl e \<Rightarrow> Inl e
           | Inr r \<Rightarrow> Inr (get_survivor IMPOSSIBLE (fst r))))"

text \<open>Lines 438 to 444: one case from its text.\<close>

definition edith_case :: "(string \<Rightarrow> gene list) \<Rightarrow> string \<Rightarrow> error + string" where
  "edith_case read_csv case_data =
     (case Genes_init read_csv case_data of
        Inl e \<Rightarrow> Inl e
      | Inr genes \<Rightarrow> edith_answer genes)"

section \<open>The rule as the specification words it\<close>

text \<open>
  The unified rule of the specification, for comparison with \<open>get_fitness\<close>: on a
  proper prefix it appends the longer side.
\<close>

definition fuse_spec :: "string \<Rightarrow> string \<times> string \<Rightarrow> gene \<Rightarrow> chromosome" where
  "fuse_spec built residue pair =
     (let a = fst residue @ fst pair;
          b = snd residue @ snd pair
      in if a = b then (built @ a, ('''', ''''))
         else if strict_prefix a b then (built @ b, ('''', drop (length a) b))
         else if strict_prefix b a then (built @ a, (drop (length b) a, ''''))
         else (UNFIT, ('''', '''')))"

text \<open>The divergence guard as the specification words it.\<close>

definition guard_spec :: "string \<Rightarrow> string \<Rightarrow> bool" where
  "guard_spec a built = (length a > 10 * max 1 (length built))"

section \<open>Properties of the fusion step\<close>

text \<open>
  Claim C1 does not hold as worded: on a proper prefix \<open>get_fitness\<close> appends the
  shorter of the two sides, the part on which both agree, and keeps the rest of the
  longer side as the leftover. With built string \<open>x\<close>, empty leftovers and the pair
  \<open>(a, ab)\<close> the source returns \<open>xa\<close> with leftover \<open>b\<close> on the second side, where
  the rule of the specification gives \<open>xab\<close>.
\<close>

theorem unified_rule_counterexample:
  "get_fitness ''x'' ('''', '''') (''a'', ''ab'') = (''xa'', ('''', ''b'')) \<and>
   fuse_spec ''x'' ('''', '''') (''a'', ''ab'') = (''xab'', ('''', ''b''))"
  by (simp add: get_fitness_def fuse_spec_def startswith_def strict_prefix_def)

text \<open>
  Claim C1, amended. Let \<open>a = leftA + A\<close> and \<open>b = leftB + B\<close>, and let \<open>a\<close> be at most
  ten times as long as the built string, so that the divergence guard is silent. If
  \<open>a = b\<close> the chromosome closes: the built string grows by \<open>a\<close> and both leftovers are
  empty. If \<open>b\<close> is a proper prefix of \<open>a\<close> the built string grows by \<open>b\<close> and the
  leftover is \<open>(a[len(b):], "")\<close>. If \<open>a\<close> is a proper prefix of \<open>b\<close> the built string
  grows by \<open>a\<close> and the leftover is \<open>("", b[len(a):])\<close>. Otherwise the result is unfit.
\<close>

theorem get_fitness_fuses_shorter_side:
  assumes "length (leftA @ A) \<le> 10 * length built"
  shows "get_fitness built (leftA, leftB) (A, B) =
    (let a = leftA @ A; b = leftB @ B
     in if a = b then (built @ a, ('''', ''''))
        else if strict_prefix b a then (built @ b, (drop (length b) a, ''''))
        else if strict_prefix a b then (built @ a, ('''', drop (length a) b))
        else (UNFIT, ('''', '''')))"
  using assms by (auto simp: get_fitness_def startswith_def Let_def strict_prefix_def)

theorem get_fitness_fuses_shorter_side_witness:
  "length ('''' @ ''a'') \<le> 10 * length ''x'' \<and>
   get_fitness ''x'' ('''', '''') (''a'', ''ab'') = (''xa'', ('''', ''b''))"
  using get_fitness_fuses_shorter_side [of "''''" "''a''" "''x''" "''''" "''ab''"]
  by (simp add: strict_prefix_def)

text \<open>
  For a built string that is not empty the guard of line 24 is the guard of the
  specification.
\<close>

lemma guard_agrees_when_built:
  "built \<noteq> [] \<Longrightarrow> (length a > 10 * length built) = guard_spec a built"
  by (cases built) (simp_all add: guard_spec_def)

text \<open>
  Claim C2 at the seed: the guard of line 24 compares with \<open>10 * len(sequence)\<close>, which
  is 0 for the empty built string. The pair \<open>(a, a)\<close> fused with the empty chromosome is
  returned unfit, although the guard of the specification is silent there and both sides
  are equal.
\<close>

theorem seed_guard_fires:
  "get_fitness '''' ('''', '''') (''a'', ''a'') = (UNFIT, ('''', '''')) \<and>
   \<not> guard_spec ('''' @ ''a'') '''' \<and>
   fuse_spec '''' ('''', '''') (''a'', ''a'') = (''a'', ('''', ''''))"
  by (simp add: get_fitness_def guard_spec_def fuse_spec_def)

text \<open>
  Claim C8: a fusion with a gene pair of two non-empty strings that is not unfit returns
  a built string strictly longer than the one it was given.
\<close>

theorem get_fitness_grows:
  "fst g \<noteq> [] \<Longrightarrow> snd g \<noteq> [] \<Longrightarrow> fst (get_fitness s d g) \<noteq> UNFIT \<Longrightarrow>
   length s < length (fst (get_fitness s d g))"
  by (auto simp: get_fitness_def Let_def split: if_splits)

theorem get_fitness_grows_witness:
  "fst (''a'', ''ab'') \<noteq> [] \<and> snd (''a'', ''ab'') \<noteq> [] \<and>
   fst (get_fitness ''x'' ('''', '''') (''a'', ''ab'')) \<noteq> UNFIT \<and>
   length ''x'' < length (fst (get_fitness ''x'' ('''', '''') (''a'', ''ab'')))"
proof -
  have v: "get_fitness ''x'' ('''', '''') (''a'', ''ab'') = (''xa'', ('''', ''b''))"
    by (simp add: get_fitness_def startswith_def)
  have u: "fst (get_fitness ''x'' ('''', '''') (''a'', ''ab'')) \<noteq> UNFIT"
    by (simp add: v UNFIT_def)
  show ?thesis
    using u get_fitness_grows [of "(''a'', ''ab'')" "''x''" "('''', '''')"] by simp
qed

section \<open>The seeding\<close>

text \<open>
  Every gene whose first string is not empty is unfit at the seeding, and the seeding
  then catches no survivor.
\<close>

lemma seed_unfit: "fst g \<noteq> [] \<Longrightarrow> get_fitness '''' ('''', '''') g = (UNFIT, ('''', ''''))"
  by (simp add: get_fitness_def)

lemma origins_no_survivor:
  "\<forall>g\<in>set genes. fst g \<noteq> [] \<Longrightarrow> survivors (origins genes) = []"
  by (induction genes) (auto simp: origins_def catch_survivors_def seed_unfit Let_def)

lemma origins_chromosomes_unfit:
  "\<forall>g\<in>set genes. fst g \<noteq> [] \<Longrightarrow>
     chromosomes (origins genes) = map (\<lambda>g. (UNFIT, ('''', ''''))) genes"
  by (induction genes) (auto simp: origins_def seed_unfit Let_def)

text \<open>
  Claim C3 at the case of the single pair \<open>(a, a)\<close>. The seed is unfit and no survivor is
  caught at the seeding, as the claim says. The unfit seed stays in the working list,
  which line 53 does not filter as line 85 does; the first age fuses it with the pair as
  if \<open>_unfit\<close> were its built string, and the program prints \<open>_unfita\<close>, not
  \<open>IMPOSSIBLE\<close>.
\<close>

theorem unfit_seed_expanded:
  "chromosomes (origins [(''a'', ''a'')]) = [(UNFIT, ('''', ''''))] \<and>
   survivors (origins [(''a'', ''a'')]) = [] \<and>
   solve [(''a'', ''a'')] 8 = ''_unfita''"
  by code_simp

text \<open>
  Claim C4 at the case of the single pair \<open>(dear, dear)\<close>: the seeding catches no
  survivor, and the answer is \<open>_unfitdear\<close> instead of \<open>dear\<close>.
\<close>

theorem single_equal_pair_answer:
  "survivors (origins [(''dear'', ''dear'')]) = [] \<and>
   solve [(''dear'', ''dear'')] 8 = ''_unfitdear''"
  by code_simp

section \<open>The choice of the answer\<close>

lemma hd_sort_key_min:
  assumes "xs \<noteq> []"
  shows "hd (sort_key f xs) \<in> set xs \<and> (\<forall>x\<in>set xs. f (hd (sort_key f xs)) \<le> f x)"
proof -
  have "sort_key f xs \<noteq> []"
    using assms by (metis length_sort length_0_conv)
  then obtain y ys where ys: "sort_key f xs = y # ys"
    by (cases "sort_key f xs") auto
  have mem: "set xs = insert y (set ys)"
    using set_sort [of f xs] unfolding ys by simp
  have "sorted (map f (sort_key f xs))" by simp
  then have "\<forall>x\<in>set ys. f y \<le> f x"
    unfolding ys by simp
  then have "\<forall>x\<in>set xs. f y \<le> f x"
    unfolding mem by simp
  then show ?thesis
    unfolding ys using mem by simp
qed

lemma final_survivor_empty: "final_survivor [] = IMPOSSIBLE"
  by (simp add: final_survivor_def)

lemma final_survivor_hd:
  assumes "svs \<noteq> []"
  shows "final_survivor svs = hd (sort_key (\<lambda>s. (length s, s)) svs)"
proof -
  have "sort_key (\<lambda>s. (length s, s)) svs \<noteq> []"
    using assms by (metis length_sort length_0_conv)
  then show ?thesis
    by (cases "sort_key (\<lambda>s. (length s, s)) svs") (simp_all add: final_survivor_def)
qed

lemma final_survivor_in:
  assumes "svs \<noteq> []"
  shows "final_survivor svs \<in> set svs"
  unfolding final_survivor_hd [OF assms]
  using hd_sort_key_min [OF assms, of "\<lambda>s. (length s, s)"] by simp

lemma final_survivor_min:
  assumes "svs \<noteq> []" and "s \<in> set svs"
  shows "length (final_survivor svs) < length s \<or>
         (length (final_survivor svs) = length s \<and> final_survivor svs \<le> s)"
proof -
  define r where "r = hd (sort_key (\<lambda>s. (length s, s)) svs)"
  have "(length r, r) \<le> (length s, s)"
    unfolding r_def
    using hd_sort_key_min [OF assms(1), of "\<lambda>s. (length s, s)"] assms(2) by simp
  then have "length r < length s \<or> (length r = length s \<and> r \<le> s)"
    by (simp add: less_eq_prod_def) arith
  then show ?thesis
    unfolding final_survivor_hd [OF assms(1)] r_def .
qed

lemma final_survivor_mem:
  assumes "final_survivor svs \<noteq> IMPOSSIBLE"
  shows "final_survivor svs \<in> set svs"
proof -
  have "svs \<noteq> []" using assms final_survivor_empty by auto
  then show ?thesis by (rule final_survivor_in)
qed

text \<open>
  Claim C5: when the list of survivors at the end of the run is not empty, the answer is
  one of the survivors, and no survivor is shorter, nor of the same length and before it
  in the order of strings; when the list is empty the answer is \<open>IMPOSSIBLE\<close>. The
  order \<open>\<le>\<close> on strings is the lexicographic order on the characters.
\<close>

theorem solve_tie_break:
  "(survivors (run genes ages) \<noteq> [] \<longrightarrow>
      solve genes ages \<in> set (survivors (run genes ages)) \<and>
      (\<forall>s\<in>set (survivors (run genes ages)).
         length (solve genes ages) < length s \<or>
         (length (solve genes ages) = length s \<and> solve genes ages \<le> s))) \<and>
   (survivors (run genes ages) = [] \<longrightarrow> solve genes ages = IMPOSSIBLE)"
proof (intro conjI impI ballI)
  assume "survivors (run genes ages) \<noteq> []"
  then show "solve genes ages \<in> set (survivors (run genes ages))"
    unfolding solve_def by (rule final_survivor_in)
next
  fix s
  assume "survivors (run genes ages) \<noteq> []" and "s \<in> set (survivors (run genes ages))"
  then show "length (solve genes ages) < length s \<or>
         (length (solve genes ages) = length s \<and> solve genes ages \<le> s)"
    unfolding solve_def by (rule final_survivor_min)
next
  assume "survivors (run genes ages) = []"
  then show "solve genes ages = IMPOSSIBLE"
    by (simp add: solve_def final_survivor_empty)
qed

theorem solve_tie_break_witness:
  "survivors (run [(''ab'', ''a''), (''c'', ''bc'')] 3) \<noteq> [] \<and>
   solve [(''ab'', ''a''), (''c'', ''bc'')] 3 = ''_unfitabc'' \<and>
   survivors (run [(''a'', ''b'')] 3) = [] \<and>
   solve [(''a'', ''b'')] 3 = IMPOSSIBLE"
proof -
  have a: "survivors (run [(''ab'', ''a''), (''c'', ''bc'')] 3) = [''_unfitabc'', ''_unfitabc'']"
    by code_simp
  have b: "survivors (run [(''a'', ''b'')] 3) = []"
    by code_simp
  show ?thesis
    using solve_tie_break [of "[(''ab'', ''a''), (''c'', ''bc'')]" 3]
      solve_tie_break [of "[(''a'', ''b'')]" 3]
    unfolding a b by simp
qed

section \<open>Pruning\<close>

lemma expandable_pruned:
  assumes "s \<in> set svs" and "length s \<le> length (fst c)"
  shows "\<not> expandable svs c"
proof -
  have ne: "svs \<noteq> []" using assms(1) by auto
  have "length (hd (sort_key length svs)) \<le> length s"
    using hd_sort_key_min [OF ne, of length] assms(1) by blast
  then show ?thesis
    using ne assms(2) by (simp add: expandable_def)
qed

lemma mutations_append:
  "mutations svs (cs1 @ cs2) genes = mutations svs cs1 genes @ mutations svs cs2 genes"
  by (simp add: mutations_def)

lemma mutations_Cons_pruned:
  "\<not> expandable svs c \<Longrightarrow> mutations svs (c # cs) genes = mutations svs cs genes"
  by (simp add: mutations_def)

lemma mutations_expandable:
  "(c, g) \<in> set (mutations svs cs genes) \<Longrightarrow> expandable svs c"
  by (auto simp: mutations_def split: if_splits)

text \<open>
  Claim C6, amended to edith3.py: in a round that starts with a survivor \<open>s\<close> in the
  pool, a chromosome whose built string is at least as long as \<open>s\<close>, hence at least as
  long as the shortest survivor, is fused with no gene, and the round gives the same
  working list and the same survivors as it gives without that chromosome.
\<close>

theorem pruned_candidate_not_expanded:
  assumes "s \<in> set (survivors p)"
    and "length s \<le> length (fst c)"
    and "chromosomes p = cs1 @ c # cs2"
  shows "(\<forall>g. (c, g) \<notin> set (mutations (survivors p) (chromosomes p) genes)) \<and>
         mutate genes p = mutate genes (p\<lparr>chromosomes := cs1 @ cs2\<rparr>)"
proof -
  have np: "\<not> expandable (survivors p) c"
    using expandable_pruned assms(1,2) by blast
  have "mutations (survivors p) (cs1 @ c # cs2) genes = mutations (survivors p) (cs1 @ cs2) genes"
    by (simp add: mutations_append mutations_Cons_pruned [OF np])
  then have eq: "mutate genes p = mutate genes (p\<lparr>chromosomes := cs1 @ cs2\<rparr>)"
    using assms(3) by (simp add: mutate_def next_chromosomes_def)
  have "(c, g) \<notin> set (mutations (survivors p) (chromosomes p) genes)" for g
    using np mutations_expandable by blast
  then show ?thesis using eq by blast
qed

theorem pruned_candidate_not_expanded_witness:
  "''_unfita'' \<in> set (survivors (run [(''a'', ''a''), (''ab'', ''a'')] 1)) \<and>
   length ''_unfita'' \<le> length (fst (''_unfita'', (''b'', ''''))) \<and>
   chromosomes (run [(''a'', ''a''), (''ab'', ''a'')] 1) =
     [(''_unfita'', ('''', ''''))] @ (''_unfita'', (''b'', '''')) #
     [(''_unfita'', ('''', '''')), (''_unfita'', (''b'', ''''))] \<and>
   mutate [(''a'', ''a''), (''ab'', ''a'')] (run [(''a'', ''a''), (''ab'', ''a'')] 1) =
     mutate [(''a'', ''a''), (''ab'', ''a'')]
       ((run [(''a'', ''a''), (''ab'', ''a'')] 1)
          \<lparr>chromosomes := [(''_unfita'', ('''', ''''))] @
             [(''_unfita'', ('''', '''')), (''_unfita'', (''b'', ''''))]\<rparr>)"
proof -
  have sv: "survivors (run [(''a'', ''a''), (''ab'', ''a'')] 1) = [''_unfita'', ''_unfita'']"
    by code_simp
  have ch: "chromosomes (run [(''a'', ''a''), (''ab'', ''a'')] 1) =
     [(''_unfita'', ('''', ''''))] @ (''_unfita'', (''b'', '''')) #
     [(''_unfita'', ('''', '''')), (''_unfita'', (''b'', ''''))]"
    by code_simp
  have m: "''_unfita'' \<in> set (survivors (run [(''a'', ''a''), (''ab'', ''a'')] 1))"
    unfolding sv by simp
  have l: "length ''_unfita'' \<le> length (fst (''_unfita'', (''b'', '''')))"
    by simp
  show ?thesis
    using m l ch pruned_candidate_not_expanded [OF m l ch, of "[(''a'', ''a''), (''ab'', ''a'')]"]
    by blast
qed

section \<open>Survivors are closed\<close>

lemma survivors_run_Suc:
  "survivors (run genes (Suc n)) =
     survivors (run genes n) @ catch_survivors (chromosomes (run genes (Suc n)))"
  by (simp add: mutate_def Let_def)

lemma survivors_origin:
  "survivors (run genes 0) = catch_survivors (chromosomes (run genes 0))"
  by (simp add: origins_def Let_def)

text \<open>The list of survivors keeps what every round has caught.\<close>

lemma survivors_collected:
  "k \<le> n \<Longrightarrow>
     set (catch_survivors (chromosomes (run genes k))) \<subseteq> set (survivors (run genes n))"
proof (induction n)
  case 0
  then show ?case by (simp add: origins_def Let_def)
next
  case (Suc n)
  show ?case
  proof (cases "k = Suc n")
    case True
    then show ?thesis unfolding survivors_run_Suc by simp
  next
    case False
    then have "k \<le> n" using Suc.prems by simp
    then show ?thesis using Suc.IH unfolding survivors_run_Suc by auto
  qed
qed

lemma catch_survivors_closed:
  "s \<in> set (catch_survivors cs) \<Longrightarrow> \<exists>c\<in>set cs. fst c = s \<and> snd c = ('''', '''')"
  by (auto simp: catch_survivors_def prod_eq_iff)

lemma survivor_closed:
  "s \<in> set (survivors (run genes n)) \<Longrightarrow>
     \<exists>k\<le>n. \<exists>c\<in>set (chromosomes (run genes k)). fst c = s \<and> snd c = ('''', '''')"
proof (induction n)
  case 0
  then have "s \<in> set (catch_survivors (chromosomes (run genes 0)))"
    by (simp only: survivors_origin)
  then show ?case using catch_survivors_closed by blast
next
  case (Suc n)
  from Suc.prems consider
    (old) "s \<in> set (survivors (run genes n))" |
    (new) "s \<in> set (catch_survivors (chromosomes (run genes (Suc n))))"
    unfolding survivors_run_Suc by auto
  then show ?case
  proof cases
    case old
    then obtain k c where "k \<le> n" "c \<in> set (chromosomes (run genes k))"
      "fst c = s" "snd c = ('''', '''')"
      using Suc.IH by blast
    then show ?thesis using le_Suc_eq by blast
  next
    case new
    then show ?thesis using catch_survivors_closed by blast
  qed
qed

text \<open>
  In edith3.py every string in the list of survivors is the built string of a chromosome of
  the working list of some round of the run whose two leftovers are empty; and so is
  every answer other than \<open>IMPOSSIBLE\<close>.
\<close>

lemma survivors_closed:
  "(\<forall>s\<in>set (survivors (run genes ages)).
      \<exists>k\<le>ages. \<exists>c\<in>set (chromosomes (run genes k)). fst c = s \<and> snd c = ('''', '''')) \<and>
   (solve genes ages \<noteq> IMPOSSIBLE \<longrightarrow>
      (\<exists>k\<le>ages. \<exists>c\<in>set (chromosomes (run genes k)).
         fst c = solve genes ages \<and> snd c = ('''', '''')))"
proof (intro conjI ballI impI)
  fix s assume "s \<in> set (survivors (run genes ages))"
  then show "\<exists>k\<le>ages. \<exists>c\<in>set (chromosomes (run genes k)). fst c = s \<and> snd c = ('''', '''')"
    by (rule survivor_closed)
next
  assume "solve genes ages \<noteq> IMPOSSIBLE"
  then have "solve genes ages \<in> set (survivors (run genes ages))"
    unfolding solve_def by (rule final_survivor_mem)
  then show "\<exists>k\<le>ages. \<exists>c\<in>set (chromosomes (run genes k)).
         fst c = solve genes ages \<and> snd c = ('''', '''')"
    by (rule survivor_closed)
qed

section \<open>The unfit seed in the answers\<close>

lemma get_fitness_keeps_prefix:
  assumes "prefix UNFIT s"
  shows "prefix UNFIT (fst (get_fitness s d g))"
  using assms by (auto simp: get_fitness_def Let_def prefix_def)

lemma next_chromosomes_keep_prefix:
  assumes "\<forall>c\<in>set cs. prefix UNFIT (fst c)"
  shows "\<forall>c\<in>set (next_chromosomes svs cs genes). prefix UNFIT (fst c)"
proof
  fix c assume "c \<in> set (next_chromosomes svs cs genes)"
  then obtain m where m: "m \<in> set (mutations svs cs genes)"
    and c: "c = get_fitness (fst (fst m)) (snd (fst m)) (snd m)"
    by (auto simp: next_chromosomes_def)
  from m have "fst m \<in> set cs"
    by (auto simp: mutations_def split: if_splits)
  then have "prefix UNFIT (fst (fst m))" using assms by blast
  then show "prefix UNFIT (fst c)" unfolding c by (rule get_fitness_keeps_prefix)
qed

lemma chromosomes_start_with_unfit:
  assumes "\<forall>g\<in>set genes. fst g \<noteq> []"
  shows "\<forall>c\<in>set (chromosomes (run genes n)). prefix UNFIT (fst c)"
proof (induction n)
  case 0
  show ?case by (simp add: origins_chromosomes_unfit [OF assms])
next
  case (Suc n)
  have "chromosomes (run genes (Suc n)) =
      next_chromosomes (survivors (run genes n)) (chromosomes (run genes n)) genes"
    by (simp add: mutate_def Let_def)
  then show ?case using next_chromosomes_keep_prefix [OF Suc.IH] by simp
qed

text \<open>
  When the first string of every gene is not empty, an answer of edith3.py is
  \<open>IMPOSSIBLE\<close> or begins with the marker \<open>_unfit\<close> of the unfit seed it grew from.
\<close>

lemma answers_start_with_unfit:
  assumes "\<forall>g\<in>set genes. fst g \<noteq> []"
  shows "solve genes ages = IMPOSSIBLE \<or> prefix UNFIT (solve genes ages)"
proof (cases "solve genes ages = IMPOSSIBLE")
  case True
  then show ?thesis by simp
next
  case False
  then have "solve genes ages \<in> set (survivors (run genes ages))"
    unfolding solve_def by (rule final_survivor_mem)
  then obtain k c where "c \<in> set (chromosomes (run genes k))" "fst c = solve genes ages"
    using survivor_closed by blast
  then show ?thesis using chromosomes_start_with_unfit [OF assms, of k] by auto
qed

section \<open>The number of rounds\<close>

lemma age_run: "age (run genes n) = n"
  by (induction n) (simp_all add: origins_def mutate_def Let_def)

lemma run_funpow: "run genes n = (mutate genes ^^ n) (origins genes)"
  by (induction n) simp_all

text \<open>
  Claim C10: \<open>run\<close> is a primitive recursion on the number of ages, so the run of a case
  ends for every list of pairs and every number of ages; its result is the seeding
  followed by exactly \<open>ages\<close> passes of the loop body, and the counter of passes is at
  most \<open>ages\<close>.
\<close>

theorem run_rounds_bounded:
  assumes "genes \<noteq> []" and "0 < ages"
  shows "run genes ages = (mutate genes ^^ ages) (origins genes) \<and>
         age (run genes ages) \<le> ages"
proof
  show "run genes ages = (mutate genes ^^ ages) (origins genes)"
    by (rule run_funpow)
  show "age (run genes ages) \<le> ages"
    by (simp add: age_run)
qed

theorem run_rounds_bounded_witness:
  "[(''a'', ''a'')] \<noteq> [] \<and> (0::nat) < 8 \<and>
   run [(''a'', ''a'')] 8 = (mutate [(''a'', ''a'')] ^^ 8) (origins [(''a'', ''a'')]) \<and>
   age (run [(''a'', ''a'')] 8) \<le> 8"
proof -
  have a: "[(''a'', ''a'')] \<noteq> ([] :: gene list)" by simp
  have b: "(0::nat) < 8" by simp
  show ?thesis
    using a b run_rounds_bounded [OF a b] by blast
qed

section \<open>Malformed input\<close>

lemma split_on_no_sep: "sep \<notin> set x \<Longrightarrow> split_on sep x = [x]"
  by (induction x) auto

lemma split_on_append: "sep \<notin> set x \<Longrightarrow> split_on sep (x @ sep # r) = x # split_on sep r"
  by (induction x) auto

lemma split_on_join:
  "xs \<noteq> [] \<Longrightarrow> \<forall>x\<in>set xs. sep \<notin> set x \<Longrightarrow> split_on sep (join sep xs) = xs"
proof (induction sep xs rule: join.induct)
  case (1 sep)
  then show ?case by simp
next
  case (2 sep x)
  then show ?case by (simp add: split_on_no_sep)
next
  case (3 sep x y ys)
  then show ?case by (simp add: split_on_append)
qed

lemma newline_replaced: "newline \<notin> set (replace_newline l)"
  by (simp add: replace_newline_def)

text \<open>Joining the lines and splitting them again gives the lines back, one gene a line.\<close>

lemma case_tokens_lines:
  assumes "0 < n" and "rest \<noteq> []"
  shows "case_tokens n rest = map (\<lambda>l. str_split (replace_newline l)) (take n rest)"
proof -
  have "map replace_newline (take n rest) \<noteq> []"
    using assms by (cases n; cases rest) auto
  moreover have "\<forall>x\<in>set (map replace_newline (take n rest)). newline \<notin> set x"
    by (auto simp: newline_replaced)
  ultimately have "split_on newline (join newline (map replace_newline (take n rest)))
      = map replace_newline (take n rest)"
    by (rule split_on_join)
  then show ?thesis by (simp add: case_tokens_def)
qed

text \<open>A case of no line has the single gene \<open>[]\<close>.\<close>

lemma case_tokens_none: "case_tokens 0 rest = [[]]"
  by (simp add: case_tokens_def str_split_def)

lemma gene_of_short: "length ts < 2 \<Longrightarrow> gene_of ts = Inl IndexError"
  by (cases ts rule: list.exhaust[case_product list.exhaust])
     (auto simp: gene_of_def split: list.splits)

lemma gene_of_long: "2 \<le> length ts \<Longrightarrow> gene_of ts = Inr (ts ! 0, ts ! 1)"
  by (auto simp: gene_of_def split: list.splits)

lemma genes_of_short:
  "\<exists>ts\<in>set tss. length ts < 2 \<Longrightarrow> genes_of tss = Inl IndexError"
proof (induction tss)
  case Nil
  then show ?case by simp
next
  case (Cons ts tss)
  show ?case
  proof (cases "length ts < 2")
    case True
    then show ?thesis by (simp add: gene_of_short)
  next
    case False
    then have "\<exists>ts\<in>set tss. length ts < 2" using Cons.prems by auto
    then have "genes_of tss = Inl IndexError" by (rule Cons.IH)
    then show ?thesis using False by (simp add: gene_of_long)
  qed
qed

lemma genes_of_long:
  "\<forall>ts\<in>set tss. 2 \<le> length ts \<Longrightarrow> genes_of tss = Inr (map (\<lambda>ts. (ts ! 0, ts ! 1)) tss)"
  by (induction tss) (simp_all add: gene_of_long)

text \<open>
  \<open>int\<close> and \<open>split()\<close> differ on the separators U+001C to U+001F: a header with one of
  them ends the run with \<open>ValueError\<close>, while a gene line is split at them. An
  underscore between two digits is read over.
\<close>

lemma int_examples:
  "py_int ([CHR 0x1F] @ ''1'' @ [newline]) = None \<and>
   py_int (''1'' @ [CHR 0x1F] @ [newline]) = None \<and>
   py_int (''0_1'' @ [newline]) = Some 1 \<and>
   py_int (''1__0'' @ [newline]) = None \<and>
   py_int ('' -12 '' @ [CHR 0xA0, newline]) = Some (- 12) \<and>
   str_split (''ab'' @ [CHR 0x1F] @ ''cd'' @ [newline]) = [''ab'', ''cd'']"
  by code_simp

lemma separator_header_fails:
  "main_loop 0 [[CHR 0x1F] @ ''1'' @ [newline], ''a a'' @ [newline]] = ([], Some ValueError)"
  by code_simp

text \<open>
  Claim C9 does not hold as worded: a gene line of three tokens raises nothing. The case
  of the one line \<open>a a c\<close> is solved as the pair \<open>(a, a)\<close> and its answer is printed.
\<close>

theorem extra_tokens_accepted:
  "length (str_split (replace_newline (''a a c'' @ [newline]))) = 3 \<and>
   main_loop 0 [''1'' @ [newline], ''a a c'' @ [newline]] = ([(1, ''_unfita'')], None)"
  by code_simp

text \<open>
  Claim C9, amended. The program has no error of its own; what ends a run is an uncaught
  Python exception. For a header that \<open>int\<close> reads as \<open>n\<close>: when fewer than \<open>n\<close> lines
  follow, the run ends with \<open>StopIteration\<close> and prints nothing for the case; when \<open>n\<close>
  is below one, or when one of the \<open>n\<close> lines has fewer than two tokens, the run ends
  with \<open>IndexError\<close> and prints nothing for the case; when every one of the \<open>n\<close> lines
  has at least two tokens, nothing is raised for the case, the pairs are the first two
  tokens of each line, the further tokens are ignored, and the answer of the case is
  printed before the next case is read.
\<close>

theorem input_errors:
  assumes "py_int line = Some n"
  shows "(length rest < nat n \<longrightarrow> main_loop k (line # rest) = ([], Some StopIteration)) \<and>
    (n \<le> 0 \<longrightarrow> main_loop k (line # rest) = ([], Some IndexError)) \<and>
    (0 < n \<and> nat n \<le> length rest \<and>
       (\<exists>l\<in>set (take (nat n) rest). length (str_split (replace_newline l)) < 2) \<longrightarrow>
         main_loop k (line # rest) = ([], Some IndexError)) \<and>
    (0 < n \<and> nat n \<le> length rest \<and>
       (\<forall>l\<in>set (take (nat n) rest). 2 \<le> length (str_split (replace_newline l))) \<longrightarrow>
         main_loop k (line # rest) =
           ((k + 1,
             solve (map (\<lambda>l. (str_split (replace_newline l) ! 0, str_split (replace_newline l) ! 1))
                      (take (nat n) rest)) 8)
              # fst (main_loop (Suc k) (drop (nat n) rest)),
            snd (main_loop (Suc k) (drop (nat n) rest))))"
proof (intro conjI impI)
  assume "length rest < nat n"
  then show "main_loop k (line # rest) = ([], Some StopIteration)"
    using assms by simp
next
  assume "n \<le> 0"
  then show "main_loop k (line # rest) = ([], Some IndexError)"
    using assms by (simp add: case_tokens_none gene_of_def)
next
  assume a: "0 < n \<and> nat n \<le> length rest \<and>
       (\<exists>l\<in>set (take (nat n) rest). length (str_split (replace_newline l)) < 2)"
  then have ne: "rest \<noteq> []" and pos: "0 < nat n" by auto
  have "\<exists>ts\<in>set (case_tokens (nat n) rest). length ts < 2"
    unfolding case_tokens_lines [OF pos ne] using a by auto
  then have "genes_of (case_tokens (nat n) rest) = Inl IndexError"
    by (rule genes_of_short)
  then show "main_loop k (line # rest) = ([], Some IndexError)"
    using assms a by simp
next
  assume a: "0 < n \<and> nat n \<le> length rest \<and>
       (\<forall>l\<in>set (take (nat n) rest). 2 \<le> length (str_split (replace_newline l)))"
  then have ne: "rest \<noteq> []" and pos: "0 < nat n" by auto
  have "\<forall>ts\<in>set (case_tokens (nat n) rest). 2 \<le> length ts"
    unfolding case_tokens_lines [OF pos ne] using a by auto
  then have "genes_of (case_tokens (nat n) rest) =
      Inr (map (\<lambda>ts. (ts ! 0, ts ! 1)) (case_tokens (nat n) rest))"
    by (rule genes_of_long)
  then have "genes_of (case_tokens (nat n) rest) =
      Inr (map (\<lambda>l. (str_split (replace_newline l) ! 0, str_split (replace_newline l) ! 1))
                      (take (nat n) rest))"
    unfolding case_tokens_lines [OF pos ne] by (simp add: comp_def)
  then show "main_loop k (line # rest) =
           ((k + 1,
             solve (map (\<lambda>l. (str_split (replace_newline l) ! 0, str_split (replace_newline l) ! 1))
                      (take (nat n) rest)) 8)
              # fst (main_loop (Suc k) (drop (nat n) rest)),
            snd (main_loop (Suc k) (drop (nat n) rest)))"
    using assms a by (simp add: Let_def)
qed

theorem input_errors_witness:
  "py_int (''2'' @ [newline]) = Some 2 \<and>
   main_loop 0 [''2'' @ [newline], ''ab ab'' @ [newline]] = ([], Some StopIteration) \<and>
   py_int (''0'' @ [newline]) = Some 0 \<and>
   main_loop 0 [''0'' @ [newline], ''ab ab'' @ [newline]] = ([], Some IndexError) \<and>
   py_int (''1'' @ [newline]) = Some 1 \<and>
   length (str_split (replace_newline (''ab'' @ [newline]))) < 2 \<and>
   main_loop 0 [''1'' @ [newline], ''ab'' @ [newline]] = ([], Some IndexError) \<and>
   2 \<le> length (str_split (replace_newline (''ab ab c'' @ [newline]))) \<and>
   main_loop 0 [''1'' @ [newline], ''ab ab c'' @ [newline]] = ([(1, ''_unfitab'')], None)"
proof -
  have p2: "py_int (''2'' @ [newline]) = Some 2" by code_simp
  have p0: "py_int (''0'' @ [newline]) = Some 0" by code_simp
  have p1: "py_int (''1'' @ [newline]) = Some 1" by code_simp
  have t1: "str_split (replace_newline (''ab'' @ [newline])) = [''ab'']" by code_simp
  have t3: "str_split (replace_newline (''ab ab c'' @ [newline])) = [''ab'', ''ab'', ''c'']"
    by code_simp
  have so: "solve [(''ab'', ''ab'')] 8 = ''_unfitab''" by code_simp
  have stop: "main_loop 0 [''2'' @ [newline], ''ab ab'' @ [newline]] = ([], Some StopIteration)"
    using input_errors [OF p2, of "[''ab ab'' @ [newline]]" 0]
    by (simp del: main_loop.simps append.simps)
  have none: "main_loop 0 [''0'' @ [newline], ''ab ab'' @ [newline]] = ([], Some IndexError)"
    using input_errors [OF p0, of "[''ab ab'' @ [newline]]" 0]
    by (simp del: main_loop.simps append.simps)
  have short: "main_loop 0 [''1'' @ [newline], ''ab'' @ [newline]] = ([], Some IndexError)"
    using input_errors [OF p1, of "[''ab'' @ [newline]]" 0]
    by (simp del: main_loop.simps append.simps add: t1)
  have long: "main_loop 0 [''1'' @ [newline], ''ab ab c'' @ [newline]] = ([(1, ''_unfitab'')], None)"
    using input_errors [OF p1, of "[''ab ab c'' @ [newline]]" 0]
    by (simp del: append.simps add: t3 so)
  show ?thesis
    using p2 p0 p1 stop none short long
    by (simp del: main_loop.simps append.simps add: t1 t3)
qed

section \<open>The population of edith.py: properties\<close>

lemma FIT_not_UNFIT: "FIT \<noteq> UNFIT"
  by (simp add: FIT_def UNFIT_def)

text \<open>
  The leftover that \<open>get_fitness\<close> of edith3.py keeps on the longer side is the dominance
  that edith.py computes from the whole strings.
\<close>

lemma dominance_is_leftover:
  assumes "a \<noteq> b" and "startswith a b"
  shows "Population_get_fitness (s @ a) (s @ b) = drop (length b) a"
  using assms by (simp add: Population_get_fitness_def startswith_def)

text \<open>
  A frame whose single row holds the same non-empty string in both columns is answered
  by that string, found at the construction of the population.
\<close>

lemma equal_pair_frame_answer:
  assumes "A \<noteq> []"
  shows "edith_answer [(A, A)] = Inr A"
proof -
  have init: "Population_init [(A, A)] =
      Inr \<lparr>pop_chromosomes = [],
           pop_survivors = [\<lparr>col_A = A, col_B = A, A_DOMINANCE = FIT, B_DOMINANCE = FIT\<rparr>]\<rparr>"
    using assms
    by (simp add: Population_init_def first_match_def fit_def calculate_dominance_def
        Population_get_fitness_def remove_unfit_def remove_fit_def is_fit_def FIT_not_UNFIT)
  show ?thesis
    by (simp add: edith_answer_def Sequence_init_def init Sequence_run_def get_survivor_def)
qed

text \<open>
  What claim C4 says holds in edith.py when \<open>read_csv\<close> reads the case as the frame of
  one row with the same non-empty string in both columns, as it does for the line
  \<open>dear dear\<close>.
\<close>

lemma frame_single_equal_pair:
  assumes "case_data \<noteq> []" and "read_csv case_data = [(A, A)]" and "A \<noteq> []"
  shows "edith_case read_csv case_data = Inr A"
  using assms by (simp add: edith_case_def Genes_init_def equal_pair_frame_answer)

lemma frame_dear: "edith_answer [(''dear'', ''dear'')] = Inr ''dear''"
  by code_simp

text \<open>
  In the loop of \<open>Sequence.run\<close> the frame that \<open>fit\<close> meets always has a row, so the
  loop raises nothing; only the constructor can meet a frame without rows.
\<close>

lemma Population_mutate_rows:
  "genes \<noteq> [] \<Longrightarrow> rs \<noteq> [] \<Longrightarrow> Population_mutate genes rs \<noteq> []"
  by (cases genes; cases rs) (simp_all add: Population_mutate_def)

lemma fit_rows: "cs \<noteq> [] \<Longrightarrow> \<exists>p. fit svs cs = Inr p"
  by (simp add: fit_def calculate_dominance_def)

lemma ages_loop_returns:
  "genes \<noteq> [] \<Longrightarrow> pop_chromosomes p \<noteq> [] \<Longrightarrow> \<exists>r. ages_loop genes n (p, k) = Inr r"
proof (induction n arbitrary: p k)
  case 0
  then show ?case by simp
next
  case (Suc n)
  have "Population_mutate genes (pop_chromosomes p) \<noteq> []"
    using Suc.prems by (rule Population_mutate_rows)
  then obtain p' where p':
    "fit (pop_survivors p) (Population_mutate genes (pop_chromosomes p)) = Inr p'"
    using fit_rows by blast
  show ?case
  proof (cases "pop_chromosomes p' = [] \<or> solution_found p'")
    case True
    then show ?thesis using p' by auto
  next
    case False
    then have "\<exists>r. ages_loop genes n (p', Suc k) = Inr r"
      using Suc.IH [OF Suc.prems(1), of p' "Suc k"] by simp
    then show ?thesis using p' False by simp
  qed
qed

text \<open>The loop of \<open>Sequence.run\<close> makes at most \<open>ages\<close> passes.\<close>

lemma ages_loop_count: "ages_loop genes n (p, k) = Inr r \<Longrightarrow> snd r \<le> k + n"
proof (induction n arbitrary: p k)
  case 0
  then show ?case by auto
next
  case (Suc n)
  show ?case
  proof (cases "fit (pop_survivors p) (Population_mutate genes (pop_chromosomes p))")
    case (Inl e)
    then show ?thesis using Suc.prems by simp
  next
    case (Inr p')
    show ?thesis
    proof (cases "pop_chromosomes p' = [] \<or> solution_found p'")
      case True
      then have "r = (p', Suc k)" using Suc.prems Inr by (auto split: if_splits)
      then show ?thesis by simp
    next
      case False
      then have "ages_loop genes n (p', Suc k) = Inr r"
        using Suc.prems Inr by simp
      then have "snd r \<le> Suc k + n" by (rule Suc.IH)
      then show ?thesis by simp
    qed
  qed
qed

lemma Sequence_run_count: "Sequence_run genes ages p = Inr r \<Longrightarrow> snd r \<le> ages"
proof (cases "pop_chromosomes p = []")
  case True
  moreover assume "Sequence_run genes ages p = Inr r"
  ultimately show ?thesis by (auto simp: Sequence_run_def)
next
  case False
  moreover assume "Sequence_run genes ages p = Inr r"
  ultimately have "ages_loop genes ages (p, 0) = Inr r" by (simp add: Sequence_run_def)
  then show ?thesis using ages_loop_count by fastforce
qed

text \<open>Both columns of a chromosome grow in \<open>mutate\<close> when no gene has an empty string.\<close>

lemma Population_mutate_grows:
  assumes "c \<in> set (Population_mutate genes rs)"
    and "\<forall>g\<in>set genes. fst g \<noteq> [] \<and> snd g \<noteq> []"
  shows "\<exists>r\<in>set rs. length (col_A r) < length (fst c) \<and> length (col_B r) < length (snd c)"
proof -
  from assms(1) obtain r g where r: "r \<in> set rs" and g: "g \<in> set genes"
    and c: "c = (col_A r @ fst g, col_B r @ snd g)"
    by (auto simp: Population_mutate_def)
  have "fst g \<noteq> [] \<and> snd g \<noteq> []" using assms(2) g by blast
  then have "length (col_A r) < length (fst c) \<and> length (col_B r) < length (snd c)"
    by (simp add: c)
  then show ?thesis using r by blast
qed

text \<open>\<open>get_survivor\<close> returns a survivor that is least by length, then by the string.\<close>

lemma get_survivor_min:
  assumes "pop_survivors p \<noteq> []" and "r \<in> set (pop_survivors p)"
  shows "get_survivor d p \<in> col_A ` set (pop_survivors p) \<and>
    (length (get_survivor d p) < length (col_A r) \<or>
     (length (get_survivor d p) = length (col_A r) \<and> get_survivor d p \<le> col_A r))"
proof -
  let ?key = "\<lambda>r. (length (col_A r), col_A r)"
  define m where "m = hd (sort_key ?key (pop_survivors p))"
  have "sort_key ?key (pop_survivors p) \<noteq> []"
    using assms(1) by (metis length_sort length_0_conv)
  then have g: "get_survivor d p = col_A m"
    unfolding m_def by (cases "sort_key ?key (pop_survivors p)") (simp_all add: get_survivor_def)
  have mem: "m \<in> set (pop_survivors p)" and least: "?key m \<le> ?key r"
    unfolding m_def using hd_sort_key_min [OF assms(1), of ?key] assms(2) by simp_all
  from least have "length (col_A m) < length (col_A r) \<or>
      (length (col_A m) = length (col_A r) \<and> col_A m \<le> col_A r)"
    by (simp add: less_eq_prod_def) arith
  then show ?thesis unfolding g using mem by simp
qed

lemma get_survivor_none: "pop_survivors p = [] \<Longrightarrow> get_survivor d p = d"
  by (simp add: get_survivor_def)

text \<open>
  Claim C6 does not hold in edith.py, which has no test on single chromosomes. After the
  construction for the pairs \<open>(a, a)\<close> and \<open>(b, bc)\<close> the survivor \<open>a\<close> is known and the
  chromosome with \<open>A = b\<close>, as long as that survivor, is still open; the loop makes a
  pass, in which \<open>mutate\<close> combines that chromosome with both genes.
\<close>

theorem frame_expands_every_chromosome:
  "Population_init [(''a'', ''a''), (''b'', ''bc'')] =
     Inr \<lparr>pop_chromosomes =
            [\<lparr>col_A = ''b'', col_B = ''bc'', A_DOMINANCE = UNFIT, B_DOMINANCE = ''c''\<rparr>],
          pop_survivors =
            [\<lparr>col_A = ''a'', col_B = ''a'', A_DOMINANCE = FIT, B_DOMINANCE = FIT\<rparr>]\<rparr> \<and>
   Population_mutate [(''a'', ''a''), (''b'', ''bc'')]
     [\<lparr>col_A = ''b'', col_B = ''bc'', A_DOMINANCE = UNFIT, B_DOMINANCE = ''c''\<rparr>] =
     [(''ba'', ''bca''), (''bb'', ''bcbc'')] \<and>
   Sequence_run [(''a'', ''a''), (''b'', ''bc'')] 2
     \<lparr>pop_chromosomes =
        [\<lparr>col_A = ''b'', col_B = ''bc'', A_DOMINANCE = UNFIT, B_DOMINANCE = ''c''\<rparr>],
      pop_survivors =
        [\<lparr>col_A = ''a'', col_B = ''a'', A_DOMINANCE = FIT, B_DOMINANCE = FIT\<rparr>]\<rparr> =
     Inr (\<lparr>pop_chromosomes = [],
           pop_survivors =
             [\<lparr>col_A = ''a'', col_B = ''a'', A_DOMINANCE = FIT, B_DOMINANCE = FIT\<rparr>]\<rparr>, 1)"
  by code_simp

text \<open>
  Claim C7 at the case of the single pair \<open>(x_fit, x)\<close> in edith.py. The two strings
  differ and the leftover of the first over the second is \<open>_fit\<close>, which is the marker
  \<open>FIT\<close>: the chromosome is taken for a survivor although its leftover is not empty, and
  the answer of the case is \<open>x_fit\<close>.
\<close>

theorem fit_marker_collision:
  "''x_fit'' \<noteq> ''x'' \<and>
   drop (length ''x'') ''x_fit'' = ''_fit'' \<and>
   Population_get_fitness ''x_fit'' ''x'' = FIT \<and>
   edith_answer [(''x_fit'', ''x'')] = Inr ''x_fit''"
  by code_simp

end
